theory Spec2Isabelle
  imports Complex_Main "HOL-Library.Multiset"
begin

section \<open>Data model (src/types/board.ts)\<close>

text \<open>
  The four interfaces of the board are records. Identifiers, titles and timestamps are
  strings. The field \<open>id\<close> of each interface is prefixed with the name of its
  interface, since record fields are global constants.
\<close>

record Comment =
  comment_id :: string
  comment_text :: string
  author :: string
  comment_createdAt :: string

record Card =
  card_id :: string
  card_title :: string
  comments :: "Comment list"
  card_createdAt :: string

record List_t =
  list_id :: string
  list_title :: string
  cards :: "Card list"

text \<open>
  The board is polymorphic in what a slot of its \<open>lists\<close> array holds. A board the
  program's types describe holds lists (\<open>Board\<close>). The array that \<open>moveList\<close> builds
  may hold \<open>undefined\<close> in a slot, so its slots are optional lists (\<open>None\<close> is
  \<open>undefined\<close>).
\<close>

record 'l Board_of =
  board_id :: string
  board_title :: string
  lists :: "'l list"

type_synonym Board = "List_t Board_of"

text \<open>
  \<open>DEFAULT_BOARD\<close>, the initial board. Its cards are stamped with the time the module
  is loaded, which is an input of the model.
\<close>

definition DEFAULT_BOARD :: "string \<Rightarrow> Board" where
  "DEFAULT_BOARD now =
    \<lparr>board_id = ''board-1'', board_title = ''Demo Board'',
     lists =
       [\<lparr>list_id = ''list-1'', list_title = ''Todo'',
         cards =
           [\<lparr>card_id = ''card-1'', card_title = ''Create interview Kanban'',
             comments = [], card_createdAt = now\<rparr>,
            \<lparr>card_id = ''card-2'', card_title = ''Review Drag & Drop'',
             comments = [], card_createdAt = now\<rparr>]\<rparr>,
        \<lparr>list_id = ''list-2'', list_title = ''In Progress'',
         cards =
           [\<lparr>card_id = ''card-3'', card_title = ''Set up Next.js project'',
             comments = [], card_createdAt = now\<rparr>]\<rparr>,
        \<lparr>list_id = ''list-3'', list_title = ''Done'', cards = []\<rparr>]\<rparr>"

definition as_slots :: "Board \<Rightarrow> List_t option Board_of" where
  "as_slots b = \<lparr>board_id = board_id b, board_title = board_title b, lists = map Some (lists b)\<rparr>"

section \<open>Array primitives of the language\<close>

text \<open>
  \<open>Array.prototype.splice(start, deleteCount, ...items)\<close> on integer arguments.
  \<open>actualStart\<close> is the position the call works at: a negative \<open>start\<close> counts
  from the end, and the position is clamped to the array. \<open>deleteCount\<close> is clamped
  to what is left from that position. The result is the pair of the removed elements
  and the array after the call (the source mutates the array in place).
\<close>

definition actualStart :: "int \<Rightarrow> nat \<Rightarrow> nat" where
  "actualStart start len =
    nat (if start < 0 then max (int len + start) 0 else min start (int len))"

definition spliceArr :: "int \<Rightarrow> int \<Rightarrow> 'a list \<Rightarrow> 'a list \<Rightarrow> 'a list \<times> 'a list" where
  "spliceArr start deleteCount items xs =
    (let a = actualStart start (length xs);
         actualDeleteCount = nat (min (max deleteCount 0) (int (length xs) - int a))
     in (take actualDeleteCount (drop a xs),
         take a xs @ items @ drop (a + actualDeleteCount) xs))"

text \<open>
  \<open>Array.prototype.find\<close> returns the first matching element itself, not a copy: a
  later mutation of the found object is a mutation of the array's slot. \<open>findRef\<close>
  returns the position of that slot, which stands for the reference.
\<close>

fun findRef :: "('a \<Rightarrow> bool) \<Rightarrow> 'a list \<Rightarrow> nat option" where
  "findRef p [] = None"
| "findRef p (x # xs) = (if p x then Some 0 else map_option Suc (findRef p xs))"

text \<open>\<open>Array.prototype.findIndex\<close>: the first matching position, or \<open>-1\<close>.\<close>

fun findIndex :: "('a \<Rightarrow> bool) \<Rightarrow> 'a list \<Rightarrow> int" where
  "findIndex p [] = - 1"
| "findIndex p (x # xs) =
    (if p x then 0 else (let i = findIndex p xs in if i = - 1 then - 1 else i + 1))"

section \<open>The store operations (src/hooks/use-board.ts)\<close>

text \<open>
  Each operation is the function passed to \<open>setBoard\<close>: it takes the previous board
  and returns the next one. Index arguments are integers (the callers pass results of
  \<open>findIndex\<close> and of \<open>length\<close>).
\<close>

definition deleteList :: "string \<Rightarrow> Board \<Rightarrow> Board" where
  "deleteList listId prev = prev\<lparr>lists := filter (\<lambda>l. list_id l \<noteq> listId) (lists prev)\<rparr>"

definition deleteCard :: "string \<Rightarrow> string \<Rightarrow> Board \<Rightarrow> Board" where
  "deleteCard listId cardId prev =
    prev\<lparr>lists := map (\<lambda>l. if list_id l = listId
                              then l\<lparr>cards := filter (\<lambda>c. card_id c \<noteq> cardId) (cards l)\<rparr>
                              else l) (lists prev)\<rparr>"

definition moveList :: "int \<Rightarrow> int \<Rightarrow> Board \<Rightarrow> List_t option Board_of" where
  "moveList fromIndex toIndex prev =
    (let newLists = map Some (lists prev);
         (removed, newLists1) = spliceArr fromIndex 1 [] newLists;
         moved = (case removed of [] \<Rightarrow> None | m # _ \<Rightarrow> m);
         (_, newLists2) = spliceArr toIndex 0 [moved] newLists1
     in \<lparr>board_id = board_id prev, board_title = board_title prev, lists = newLists2\<rparr>)"

definition moveCard :: "string \<Rightarrow> string \<Rightarrow> int \<Rightarrow> int \<Rightarrow> Board \<Rightarrow> Board" where
  "moveCard sourceListId destListId sourceIndex destIndex prev =
    (let newLists = map (\<lambda>l. l\<lparr>cards := cards l\<rparr>) (lists prev) in
     case findRef (\<lambda>l. list_id l = sourceListId) newLists of
       None \<Rightarrow> prev
     | Some sourceList \<Rightarrow>
        (case findRef (\<lambda>l. list_id l = destListId) newLists of
           None \<Rightarrow> prev
         | Some destList \<Rightarrow>
            if sourceIndex < 0 \<or> sourceIndex \<ge> int (length (cards (newLists ! sourceList)))
            then prev
            else
              (let (removed, sourceCards) = spliceArr sourceIndex 1 [] (cards (newLists ! sourceList));
                   newLists1 = newLists[sourceList := (newLists ! sourceList)\<lparr>cards := sourceCards\<rparr>]
               in case removed of
                    [] \<Rightarrow> prev
                  | movedCard # _ \<Rightarrow>
                     (let clampedDest = min destIndex (int (length (cards (newLists1 ! destList))));
                          (_, destCards) = spliceArr clampedDest 0 [movedCard] (cards (newLists1 ! destList));
                          newLists2 = newLists1[destList := (newLists1 ! destList)\<lparr>cards := destCards\<rparr>]
                      in prev\<lparr>lists := newLists2\<rparr>))))"

text \<open>
  \<open>generateId\<close> (src/utils/id.ts) prefixes a version-4 UUID; the UUID and the clock
  are inputs of the model.
\<close>

definition generateId :: "string \<Rightarrow> string \<Rightarrow> string" where
  "generateId uuid prefix = (if prefix \<noteq> [] then prefix @ ''-'' @ uuid else uuid)"

definition addComment :: "string \<Rightarrow> string \<Rightarrow> string \<Rightarrow> string \<Rightarrow> string \<Rightarrow> Board \<Rightarrow> Board" where
  "addComment uuid now listId cardId txt prev =
    (let newComment = \<lparr>comment_id = generateId uuid ''comment'', comment_text = txt,
                        author = ''User'', comment_createdAt = now\<rparr>
     in prev\<lparr>lists := map (\<lambda>l. if list_id l = listId
                then l\<lparr>cards := map (\<lambda>c. if card_id c = cardId
                                          then c\<lparr>comments := comments c @ [newComment]\<rparr>
                                          else c) (cards l)\<rparr>
                else l) (lists prev)\<rparr>)"

section \<open>The board component (src/unnamed/part_001)\<close>

subsection \<open>Component state and events\<close>

text \<open>
  The component keeps the board (through the store), two state cells (\<open>activeId\<close>,
  \<open>activeType\<close>) and two mutable references (\<open>lastOverId\<close>,
  \<open>recentlyMovedToNewContainer\<close>). \<open>null\<close> is \<open>None\<close>. A handler runs to completion
  on the state it is given and returns the next state; the board a handler reads is the
  board of that state.
\<close>

datatype DragKind = ListKind | CardKind

record Session =
  activeId :: "string option"
  activeType :: "DragKind option"
  lastOverId :: "string option"
  recentlyMovedToNewContainer :: bool

record BoardState =
  board :: Board
  session :: Session

text \<open>
  Rectangles carry the two coordinates the handlers read. The source computes with
  double-precision numbers; here coordinates are rational numbers, compared and added
  exactly, so the comparison of \<open>handleDragOver\<close> can differ from the source where the
  source's addition rounds. The comparison only selects the insertion index of a
  cross-container move.
\<close>

record Rect =
  rect_top :: rat
  rect_height :: rat

text \<open>
  \<open>active_kind\<close> is \<open>active.data.current?.type\<close> when it is \<open>'list'\<close> or \<open>'card'\<close>,
  \<open>translated\<close> is \<open>active.rect.current.translated\<close>.
\<close>

record Active =
  active_id :: string
  active_kind :: "DragKind option"
  translated :: "Rect option"

record Over =
  over_id :: string
  over_rect :: Rect

record DragEvent =
  active :: Active
  over :: "Over option"

text \<open>
  The arguments of a collision detection, as far as this component reads them: the
  droppable containers (each with its id), and opaque geometry that only the
  library's detections read.
\<close>

record Droppable =
  droppable_id :: string
  droppable_center :: "rat \<times> rat"

record CollisionArgs =
  collisionCenter :: "rat \<times> rat"
  droppableContainers :: "Droppable list"

record Collision =
  collision_id :: string

type_synonym CollisionDetection = "CollisionArgs \<Rightarrow> Collision list"

subsection \<open>Helpers\<close>

text \<open>
  A container id that is \<open>undefined\<close> is \<open>None\<close>. The handlers test container ids
  for truthiness: an id that is \<open>undefined\<close> or the empty string is falsy.
\<close>

definition listIds :: "Board \<Rightarrow> string list" where
  "listIds b = map list_id (lists b)"

definition findContainer :: "Board \<Rightarrow> string \<Rightarrow> string option" where
  "findContainer b i =
    (if list_ex (\<lambda>l. list_id l = i) (lists b) then Some i
     else map_option list_id (find (\<lambda>l. list_ex (\<lambda>c. card_id c = i) (cards l)) (lists b)))"

text \<open>\<open>getFirstCollision(collisions, 'id')\<close> of the library: the id of the first collision, or \<open>null\<close>.\<close>

definition getFirstCollision :: "Collision list \<Rightarrow> string option" where
  "getFirstCollision cs = (case cs of [] \<Rightarrow> None | c # _ \<Rightarrow> Some (collision_id c))"

subsection \<open>Collision detection strategy\<close>

text \<open>
  The three detections of the drag-and-drop library (\<open>closestCenter\<close>,
  \<open>pointerWithin\<close>, \<open>rectIntersection\<close>) are parameters. The strategy returns the
  collisions and the state after its writes to \<open>lastOverId\<close>.
\<close>

definition collisionDetectionStrategy ::
  "CollisionDetection \<Rightarrow> CollisionDetection \<Rightarrow> CollisionDetection \<Rightarrow>
   CollisionArgs \<Rightarrow> BoardState \<Rightarrow> Collision list \<times> BoardState" where
  "collisionDetectionStrategy closestCenter pointerWithin rectIntersection args st =
    (if activeType (session st) = Some ListKind then
       (closestCenter (args\<lparr>droppableContainers :=
           filter (\<lambda>container. droppable_id container \<in> set (listIds (board st)))
             (droppableContainers args)\<rparr>), st)
     else
       (let pointerCollisions = pointerWithin args;
            collisions = (if length pointerCollisions > 0 then pointerCollisions
                          else rectIntersection args)
        in case getFirstCollision collisions of
             Some overId0 \<Rightarrow>
               (let overId =
                  (if overId0 \<in> set (listIds (board st)) then
                     (case find (\<lambda>l. list_id l = overId0) (lists (board st)) of
                        None \<Rightarrow> overId0
                      | Some l \<Rightarrow>
                         if length (cards l) > 0 then
                           (let cardIds = map card_id (cards l);
                                closestCard = closestCenter (args\<lparr>droppableContainers :=
                                  filter (\<lambda>container. droppable_id container \<in> set cardIds)
                                    (droppableContainers args)\<rparr>)
                            in case closestCard of [] \<Rightarrow> overId0 | c # _ \<Rightarrow> collision_id c)
                         else overId0)
                   else overId0)
                in ([\<lparr>collision_id = overId\<rparr>],
                    st\<lparr>session := (session st)\<lparr>lastOverId := Some overId\<rparr>\<rparr>))
           | None \<Rightarrow>
               (let st1 = (if recentlyMovedToNewContainer (session st)
                           then st\<lparr>session := (session st)\<lparr>lastOverId := activeId (session st)\<rparr>\<rparr>
                           else st)
                in case lastOverId (session st1) of
                     None \<Rightarrow> ([], st1)
                   | Some i \<Rightarrow> (if i \<noteq> [] then [\<lparr>collision_id = i\<rparr>] else [], st1))))"

text \<open>
  Modelled from the spec: the library's closest-centre detection, which is not part of
  the repository ("choose the candidate whose center is closest to the dragged item's
  center"). The candidates are ordered by the squared distance of their centres from the
  centre of the dragged rectangle, nearest first.
\<close>

definition sqDist :: "rat \<times> rat \<Rightarrow> rat \<times> rat \<Rightarrow> rat" where
  "sqDist p q = (fst p - fst q) * (fst p - fst q) + (snd p - snd q) * (snd p - snd q)"

definition closestCenterModel :: CollisionDetection where
  "closestCenterModel args =
    map (\<lambda>d. \<lparr>collision_id = droppable_id d\<rparr>)
      (sort_key (\<lambda>d. sqDist (droppable_center d) (collisionCenter args)) (droppableContainers args))"

subsection \<open>Drag handlers\<close>

definition handleDragStart :: "DragEvent \<Rightarrow> BoardState \<Rightarrow> BoardState" where
  "handleDragStart event st =
    (case active_kind (active event) of
       Some ListKind \<Rightarrow>
         st\<lparr>session := (session st)\<lparr>activeType := Some ListKind,
                                       activeId := Some (active_id (active event))\<rparr>\<rparr>
     | Some CardKind \<Rightarrow>
         st\<lparr>session := (session st)\<lparr>activeType := Some CardKind,
                                       activeId := Some (active_id (active event))\<rparr>\<rparr>
     | None \<Rightarrow> st)"

definition handleDragOver :: "DragEvent \<Rightarrow> BoardState \<Rightarrow> BoardState" where
  "handleDragOver event st =
    (case over event of
       None \<Rightarrow> st
     | Some ov \<Rightarrow>
        if activeType (session st) \<noteq> Some CardKind then st
        else
          (case (findContainer (board st) (active_id (active event)),
                 findContainer (board st) (over_id ov)) of
             (Some activeContainer, Some overContainer) \<Rightarrow>
               if activeContainer = [] \<or> overContainer = [] then st
               else if activeContainer = overContainer then st
               else
                 (case (find (\<lambda>l. list_id l = activeContainer) (lists (board st)),
                        find (\<lambda>l. list_id l = overContainer) (lists (board st))) of
                    (Some sourceList, Some destList) \<Rightarrow>
                      (let activeIndex =
                             findIndex (\<lambda>c. card_id c = active_id (active event)) (cards sourceList)
                       in if activeIndex = - 1 then st
                          else
                            (let overIndex = findIndex (\<lambda>c. card_id c = over_id ov) (cards destList);
                                 newIndex =
                                   (if over_id ov \<in> set (listIds (board st))
                                    then int (length (cards destList))
                                    else
                                      (let isBelowOverItem =
                                             (case translated (active event) of
                                                None \<Rightarrow> False
                                              | Some t \<Rightarrow>
                                                  rect_top t >
                                                    rect_top (over_rect ov) + rect_height (over_rect ov) / 2);
                                           modifier = (if isBelowOverItem then 1 else 0)
                                       in if overIndex \<ge> 0 then overIndex + modifier
                                          else int (length (cards destList))))
                             in st\<lparr>session := (session st)\<lparr>recentlyMovedToNewContainer := True\<rparr>,
                                   board := moveCard activeContainer overContainer
                                              activeIndex newIndex (board st)\<rparr>))
                  | _ \<Rightarrow> st)
           | _ \<Rightarrow> st))"

definition handleDragCancel :: "BoardState \<Rightarrow> BoardState" where
  "handleDragCancel st =
    st\<lparr>session := (session st)\<lparr>activeId := None, activeType := None,
                                  recentlyMovedToNewContainer := False\<rparr>\<rparr>"

text \<open>The identifiers of all cards of a board, list after list.\<close>

definition allCardIds :: "Board \<Rightarrow> string list" where
  "allCardIds b = concat (map (\<lambda>l. map card_id (cards l)) (lists b))"

section \<open>Vocabulary of the specification\<close>

text \<open>
  The specification speaks of removing the element at a position of a sequence and of
  inserting an element at a position. These two functions say what that means; the
  theorems compare the operations of the source with them.
\<close>

definition removeAt :: "nat \<Rightarrow> 'a list \<Rightarrow> 'a list" where
  "removeAt i xs = take i xs @ drop (Suc i) xs"

definition insertAt :: "nat \<Rightarrow> 'a \<Rightarrow> 'a list \<Rightarrow> 'a list" where
  "insertAt i x xs = take i xs @ x # drop i xs"

text \<open>
  The specification clamps a destination index that is out of range to the nearest
  valid position. Inserting into a sequence of \<open>n\<close> elements, the valid positions are
  \<open>0\<close> to \<open>n\<close>.
\<close>

definition nearestValidPosition :: "int \<Rightarrow> nat \<Rightarrow> nat" where
  "nearestValidPosition i n = nat (max 0 (min i (int n)))"

text \<open>The number of cards of a board, over all its lists.\<close>

definition totalCards :: "Board \<Rightarrow> nat" where
  "totalCards b = sum_list (map (\<lambda>l. length (cards l)) (lists b))"

section \<open>Facts about the array primitives\<close>

lemma spliceArr_remove:
  "0 \<le> i \<Longrightarrow> i < int (length xs) \<Longrightarrow>
   spliceArr i 1 [] xs = ([xs ! nat i], removeAt (nat i) xs)"
  by (simp add: spliceArr_def actualStart_def removeAt_def Let_def min_def max_def
      take_Suc_conv_app_nth)

lemma spliceArr_insert:
  "spliceArr i 0 [x] xs = ([], insertAt (actualStart i (length xs)) x xs)"
  by (simp add: spliceArr_def insertAt_def Let_def)

lemma actualStart_nonneg: "0 \<le> i \<Longrightarrow> actualStart i n = min (nat i) n"
  by (simp add: actualStart_def)

lemma actualStart_neg: "i < 0 \<Longrightarrow> actualStart i n = nat (int n + i)"
  by (simp add: actualStart_def)

lemma actualStart_le: "actualStart i n \<le> n"
  by (cases "i < 0") (simp_all add: actualStart_def)

lemma nat_min_pred: "0 \<le> t \<Longrightarrow> 0 < n \<Longrightarrow> nat (min t (int n - 1)) = min (nat t) (n - 1)"
  by arith

lemma length_removeAt: "i < length xs \<Longrightarrow> length (removeAt i xs) = length xs - 1"
  by (simp add: removeAt_def)

lemma length_insertAt: "length (insertAt i x xs) = Suc (length xs)"
  by (simp add: insertAt_def)

lemma nth_insertAt: "i \<le> length xs \<Longrightarrow> insertAt i x xs ! i = x"
  by (simp add: insertAt_def nth_append)

lemma mset_insertAt: "mset (insertAt i x xs) = add_mset x (mset xs)"
proof -
  have "mset (insertAt i x xs) = add_mset x (mset (take i xs @ drop i xs))"
    by (simp only: insertAt_def mset_append mset.simps union_mset_add_mset_right)
  then show ?thesis by (simp only: append_take_drop_id)
qed

lemma mset_removeAt: "i < length xs \<Longrightarrow> add_mset (xs ! i) (mset (removeAt i xs)) = mset xs"
proof -
  assume i: "i < length xs"
  have "mset xs = mset (take i xs @ xs ! i # drop (Suc i) xs)"
    using id_take_nth_drop[OF i] by simp
  also have "\<dots> = add_mset (xs ! i) (mset (removeAt i xs))"
    by (simp only: removeAt_def mset_append mset.simps union_mset_add_mset_right)
  finally show ?thesis by simp
qed

lemma insertAt_end: "length xs \<le> i \<Longrightarrow> insertAt i x xs = xs @ [x]"
  by (simp add: insertAt_def)

lemma removeAt_insertAt: "i \<le> length xs \<Longrightarrow> removeAt i (insertAt i x xs) = xs"
  by (simp add: removeAt_def insertAt_def min_def)

section \<open>moveList\<close>

lemma moveList_valid:
  assumes "0 \<le> fromIndex" "fromIndex < int (length (lists b))"
  shows "moveList fromIndex toIndex b =
     \<lparr>board_id = board_id b, board_title = board_title b,
      lists = map Some (insertAt (actualStart toIndex (length (lists b) - 1))
                 (lists b ! nat fromIndex) (removeAt (nat fromIndex) (lists b)))\<rparr>"
proof -
  have r: "spliceArr fromIndex 1 [] (map Some (lists b)) =
       ([Some (lists b ! nat fromIndex)], map Some (removeAt (nat fromIndex) (lists b)))"
    using assms by (simp add: spliceArr_remove) (simp add: removeAt_def take_map drop_map)
  have n: "nat fromIndex < length (lists b)" using assms by linarith
  show ?thesis
    by (simp add: moveList_def r spliceArr_insert length_removeAt[OF n])
       (simp add: insertAt_def take_map drop_map)
qed


lemma DEFAULT_BOARD_lists [simp]: "length (lists (DEFAULT_BOARD now)) = 3"
  by (simp add: DEFAULT_BOARD_def)

text \<open>
  C3. For every board and all valid indices (\<open>0 \<le> fromIndex < length\<close>,
  \<open>0 \<le> toIndex\<close>), \<open>moveList\<close> removes the list at \<open>fromIndex\<close> and reinserts it
  at \<open>toIndex\<close> in the shortened sequence: the sequence keeps its length and the
  multiset of its list ids, no slot is undefined, and the moved list ends at index
  \<open>min(toIndex, length - 1)\<close>. In particular \<open>moveList(0, 2)\<close> on \<open>[L1, L2, L3]\<close>
  yields \<open>[L2, L3, L1]\<close>.
\<close>

theorem moveList_permutation:
  "(0 \<le> fromIndex \<and> fromIndex < int (length (lists b)) \<and> 0 \<le> toIndex \<longrightarrow>
     (let n = length (lists b);
          moved = lists b ! nat fromIndex;
          ys = insertAt (min (nat toIndex) (n - 1)) moved (removeAt (nat fromIndex) (lists b))
      in moveList fromIndex toIndex b =
           \<lparr>board_id = board_id b, board_title = board_title b, lists = map Some ys\<rparr>
         \<and> length ys = n
         \<and> mset (map list_id ys) = mset (map list_id (lists b))
         \<and> ys ! nat (min toIndex (int n - 1)) = moved))
   \<and> moveList 0 2 \<lparr>board_id = i, board_title = t, lists = [L1, L2, L3]\<rparr> =
       \<lparr>board_id = i, board_title = t, lists = [Some L2, Some L3, Some L1]\<rparr>"
proof (intro conjI impI)
  assume h: "0 \<le> fromIndex \<and> fromIndex < int (length (lists b)) \<and> 0 \<le> toIndex"
  let ?n = "length (lists b)"
  let ?moved = "lists b ! nat fromIndex"
  let ?rest = "removeAt (nat fromIndex) (lists b)"
  let ?ys = "insertAt (min (nat toIndex) (?n - 1)) ?moved ?rest"
  have f: "nat fromIndex < ?n" using h by linarith
  have 1: "moveList fromIndex toIndex b =
      \<lparr>board_id = board_id b, board_title = board_title b, lists = map Some ?ys\<rparr>"
    using h moveList_valid[of fromIndex b toIndex] by (simp add: actualStart_nonneg)
  have 2: "length ?ys = ?n"
    using f by (simp add: length_insertAt length_removeAt)
  have "mset ?ys = mset (lists b)"
    using f by (simp only: mset_insertAt mset_removeAt)
  then have 3: "mset (map list_id ?ys) = mset (map list_id (lists b))"
    by (simp only: mset_map)
  have "nat (min toIndex (int ?n - 1)) = min (nat toIndex) (?n - 1)"
    using h f by (intro nat_min_pred) auto
  moreover have "min (nat toIndex) (?n - 1) \<le> length ?rest"
    using f by (simp add: length_removeAt)
  ultimately have 4: "?ys ! nat (min toIndex (int ?n - 1)) = ?moved"
    by (simp only: nth_insertAt)
  show "let n = ?n; moved = ?moved; ys = insertAt (min (nat toIndex) (n - 1)) moved ?rest
      in moveList fromIndex toIndex b =
           \<lparr>board_id = board_id b, board_title = board_title b, lists = map Some ys\<rparr>
         \<and> length ys = n
         \<and> mset (map list_id ys) = mset (map list_id (lists b))
         \<and> ys ! nat (min toIndex (int n - 1)) = moved"
    unfolding Let_def using 1 2 3 4 by (intro conjI)
next
  show "moveList 0 2 \<lparr>board_id = i, board_title = t, lists = [L1, L2, L3]\<rparr> =
       \<lparr>board_id = i, board_title = t, lists = [Some L2, Some L3, Some L1]\<rparr>"
    by (simp add: moveList_def spliceArr_def actualStart_def)
qed

text \<open>The instance of C3 on the initial board: its first list moves to the end.\<close>

theorem moveList_permutation_witness:
  "moveList 0 2 (DEFAULT_BOARD ''2024-01-01T00:00:00.000Z'') =
     \<lparr>board_id = ''board-1'', board_title = ''Demo Board'',
      lists = map Some [lists (DEFAULT_BOARD ''2024-01-01T00:00:00.000Z'') ! 1,
                        lists (DEFAULT_BOARD ''2024-01-01T00:00:00.000Z'') ! 2,
                        lists (DEFAULT_BOARD ''2024-01-01T00:00:00.000Z'') ! 0]\<rparr>
   \<and> mset (map list_id [lists (DEFAULT_BOARD ''2024-01-01T00:00:00.000Z'') ! 1,
                        lists (DEFAULT_BOARD ''2024-01-01T00:00:00.000Z'') ! 2,
                        lists (DEFAULT_BOARD ''2024-01-01T00:00:00.000Z'') ! 0])
       = mset (map list_id (lists (DEFAULT_BOARD ''2024-01-01T00:00:00.000Z'')))"
  using moveList_permutation[of 0 "DEFAULT_BOARD ''2024-01-01T00:00:00.000Z''" 2]
  by (simp add: DEFAULT_BOARD_def insertAt_def removeAt_def Let_def)

text \<open>
  C2. The claim is that \<open>moveList\<close> with a \<open>fromIndex\<close> out of bounds leaves the
  board unchanged. The source has no bounds check: on the initial board (three lists),
  \<open>moveList(3, 0)\<close> removes nothing and inserts \<open>undefined\<close> at the front, and
  \<open>moveList(-1, 0)\<close> moves the last list to the front.
\<close>

theorem moveList_out_of_bounds_changes_board:
  "moveList 3 0 (DEFAULT_BOARD now) =
     \<lparr>board_id = ''board-1'', board_title = ''Demo Board'',
      lists = None # map Some (lists (DEFAULT_BOARD now))\<rparr>
   \<and> moveList 3 0 (DEFAULT_BOARD now) \<noteq> as_slots (DEFAULT_BOARD now)
   \<and> lists (moveList (- 1) 0 (DEFAULT_BOARD now)) =
       map Some [lists (DEFAULT_BOARD now) ! 2, lists (DEFAULT_BOARD now) ! 0,
                 lists (DEFAULT_BOARD now) ! 1]"
  by (simp add: moveList_def spliceArr_def actualStart_def DEFAULT_BOARD_def as_slots_def)

section \<open>Deletion and comments\<close>

lemma map_if_unchanged:
  "(\<And>x. x \<in> set xs \<Longrightarrow> p x \<Longrightarrow> g x = x) \<Longrightarrow> map (\<lambda>x. if p x then g x else x) xs = xs"
  by (induction xs) auto

lemma map_if_update:
  assumes "distinct (map f xs)" "i < length xs" "f (xs ! i) = k"
  shows "map (\<lambda>x. if f x = k then g x else x) xs = xs[i := g (xs ! i)]"
proof (rule nth_equalityI)
  show "length (map (\<lambda>x. if f x = k then g x else x) xs) = length (xs[i := g (xs ! i)])"
    by simp
next
  fix m assume "m < length (map (\<lambda>x. if f x = k then g x else x) xs)"
  then have m: "m < length xs" by simp
  show "map (\<lambda>x. if f x = k then g x else x) xs ! m = xs[i := g (xs ! i)] ! m"
  proof (cases "m = i")
    case True
    then show ?thesis using assms by simp
  next
    case False
    have "map f xs ! m \<noteq> map f xs ! i"
      using assms(1,2) m False by (simp add: nth_eq_iff_index_eq del: nth_map)
    then have "f (xs ! m) \<noteq> k" using assms m by simp
    then show ?thesis using m False by simp
  qed
qed

text \<open>
  C5. Deleting a list whose id is not on the board, or a card whose id is not in the
  named list (also when no list has that id), returns a board equal to the input.
\<close>

theorem delete_absent_unchanged:
  "((\<forall>l \<in> set (lists b). list_id l \<noteq> listId) \<longrightarrow> deleteList listId b = b)
   \<and> ((\<forall>l \<in> set (lists b). list_id l = listId \<longrightarrow> (\<forall>c \<in> set (cards l). card_id c \<noteq> cardId))
        \<longrightarrow> deleteCard listId cardId b = b)"
proof (intro conjI impI)
  assume "\<forall>l \<in> set (lists b). list_id l \<noteq> listId"
  then have "filter (\<lambda>l. list_id l \<noteq> listId) (lists b) = lists b"
    by (simp add: filter_id_conv)
  then show "deleteList listId b = b" by (simp add: deleteList_def)
next
  assume h: "\<forall>l \<in> set (lists b). list_id l = listId \<longrightarrow> (\<forall>c \<in> set (cards l). card_id c \<noteq> cardId)"
  have "map (\<lambda>l. if list_id l = listId
                  then l\<lparr>cards := filter (\<lambda>c. card_id c \<noteq> cardId) (cards l)\<rparr> else l) (lists b)
        = lists b"
  proof (rule map_if_unchanged)
    fix l assume "l \<in> set (lists b)" "list_id l = listId"
    then have "filter (\<lambda>c. card_id c \<noteq> cardId) (cards l) = cards l"
      using h by (simp add: filter_id_conv)
    then show "l\<lparr>cards := filter (\<lambda>c. card_id c \<noteq> cardId) (cards l)\<rparr> = l" by simp
  qed
  then show "deleteCard listId cardId b = b" by (simp add: deleteCard_def)
qed

text \<open>
  The instance of C5 on the initial board: there is no list \<open>list-9\<close>, and no card
  \<open>card-3\<close> in \<open>list-1\<close>.
\<close>

theorem delete_absent_unchanged_witness:
  "deleteList ''list-9'' (DEFAULT_BOARD ''2024-01-01T00:00:00.000Z'')
     = DEFAULT_BOARD ''2024-01-01T00:00:00.000Z''
   \<and> deleteCard ''list-1'' ''card-3'' (DEFAULT_BOARD ''2024-01-01T00:00:00.000Z'')
     = DEFAULT_BOARD ''2024-01-01T00:00:00.000Z''"
  using delete_absent_unchanged[of "DEFAULT_BOARD ''2024-01-01T00:00:00.000Z''" "''list-9''"
          "''card-3''"]
        delete_absent_unchanged[of "DEFAULT_BOARD ''2024-01-01T00:00:00.000Z''" "''list-1''"
          "''card-3''"]
  by (simp add: DEFAULT_BOARD_def)

text \<open>
  C9. \<open>addComment\<close> leaves the board unchanged when no card of the named list has the
  card id (also when no list has the list id). When the list is at position \<open>i\<close> and
  the card at position \<open>j\<close> of it (list ids distinct on the board, card ids distinct
  in that list), it appends exactly one comment to the comments of that card, with the
  generated id \<open>comment-<uuid>\<close>, the author \<open>User\<close> and the creation time, and changes
  nothing else.
\<close>

theorem addComment_spec:
  "((\<forall>l \<in> set (lists b). list_id l = listId \<longrightarrow> (\<forall>c \<in> set (cards l). card_id c \<noteq> cardId))
      \<longrightarrow> addComment uuid now listId cardId txt b = b)
   \<and> (distinct (map list_id (lists b)) \<and> i < length (lists b) \<and> list_id (lists b ! i) = listId
      \<and> distinct (map card_id (cards (lists b ! i))) \<and> j < length (cards (lists b ! i))
      \<and> card_id (cards (lists b ! i) ! j) = cardId
      \<longrightarrow> addComment uuid now listId cardId txt b =
          b\<lparr>lists := (lists b)[i := (lists b ! i)\<lparr>cards := (cards (lists b ! i))[j :=
               (cards (lists b ! i) ! j)\<lparr>comments := comments (cards (lists b ! i) ! j) @
                  [\<lparr>comment_id = ''comment-'' @ uuid, comment_text = txt,
                    author = ''User'', comment_createdAt = now\<rparr>]\<rparr>]\<rparr>]\<rparr>)"
proof (intro conjI impI)
  let ?nc = "\<lparr>comment_id = generateId uuid ''comment'', comment_text = txt,
              author = ''User'', comment_createdAt = now\<rparr>"
  let ?gc = "\<lambda>c. c\<lparr>comments := comments c @ [?nc]\<rparr>"
  let ?gl = "\<lambda>l. l\<lparr>cards := map (\<lambda>c. if card_id c = cardId then ?gc c else c) (cards l)\<rparr>"
  have def: "addComment uuid now listId cardId txt b =
      b\<lparr>lists := map (\<lambda>l. if list_id l = listId then ?gl l else l) (lists b)\<rparr>"
    by (simp add: addComment_def Let_def)
  {
    assume h: "\<forall>l \<in> set (lists b). list_id l = listId \<longrightarrow> (\<forall>c \<in> set (cards l). card_id c \<noteq> cardId)"
    have "map (\<lambda>l. if list_id l = listId then ?gl l else l) (lists b) = lists b"
    proof (rule map_if_unchanged)
      fix l assume "l \<in> set (lists b)" "list_id l = listId"
      then have "map (\<lambda>c. if card_id c = cardId then ?gc c else c) (cards l) = cards l"
        using h by (intro map_if_unchanged) auto
      then show "?gl l = l" by simp
    qed
    then show "addComment uuid now listId cardId txt b = b" by (simp add: def)
  }
  {
    assume h: "distinct (map list_id (lists b)) \<and> i < length (lists b) \<and> list_id (lists b ! i) = listId
      \<and> distinct (map card_id (cards (lists b ! i))) \<and> j < length (cards (lists b ! i))
      \<and> card_id (cards (lists b ! i) ! j) = cardId"
    have 1: "map (\<lambda>l. if list_id l = listId then ?gl l else l) (lists b)
           = (lists b)[i := ?gl (lists b ! i)]"
      using h by (intro map_if_update) auto
    have 2: "map (\<lambda>c. if card_id c = cardId then ?gc c else c) (cards (lists b ! i))
           = (cards (lists b ! i))[j := ?gc (cards (lists b ! i) ! j)]"
      using h by (intro map_if_update) auto
    show "addComment uuid now listId cardId txt b =
          b\<lparr>lists := (lists b)[i := (lists b ! i)\<lparr>cards := (cards (lists b ! i))[j :=
               (cards (lists b ! i) ! j)\<lparr>comments := comments (cards (lists b ! i) ! j) @
                  [\<lparr>comment_id = ''comment-'' @ uuid, comment_text = txt,
                    author = ''User'', comment_createdAt = now\<rparr>]\<rparr>]\<rparr>]\<rparr>"
      by (simp only: def 1 2) (simp add: generateId_def)
  }
qed

text \<open>
  The instance of C9 on the initial board: a comment on \<open>card-2\<close> of \<open>list-1\<close>, and a
  comment on an unknown card of \<open>list-1\<close>.
\<close>

theorem addComment_spec_witness:
  "map (map comments) (map cards (lists
      (addComment ''u1'' ''2024-01-02T00:00:00.000Z'' ''list-1'' ''card-2'' ''hi''
        (DEFAULT_BOARD ''2024-01-01T00:00:00.000Z''))))
     = [[[], [\<lparr>comment_id = ''comment-u1'', comment_text = ''hi'', author = ''User'',
               comment_createdAt = ''2024-01-02T00:00:00.000Z''\<rparr>]], [[]], []]
   \<and> addComment ''u1'' ''2024-01-02T00:00:00.000Z'' ''list-1'' ''card-9'' ''hi''
        (DEFAULT_BOARD ''2024-01-01T00:00:00.000Z'') = DEFAULT_BOARD ''2024-01-01T00:00:00.000Z''"
  using addComment_spec[of "DEFAULT_BOARD ''2024-01-01T00:00:00.000Z''" "''list-1''" "''card-2''"
          "''u1''" "''2024-01-02T00:00:00.000Z''" "''hi''" 0 1]
        addComment_spec[of "DEFAULT_BOARD ''2024-01-01T00:00:00.000Z''" "''list-1''" "''card-9''"
          "''u1''" "''2024-01-02T00:00:00.000Z''" "''hi''" 0 1]
  by (simp add: DEFAULT_BOARD_def)

section \<open>moveCard\<close>

lemma findRef_Some:
  "findRef p xs = Some i \<Longrightarrow> i < length xs \<and> p (xs ! i) \<and> (\<forall>j < i. \<not> p (xs ! j))"
proof (induction xs arbitrary: i)
  case Nil
  then show ?case by simp
next
  case (Cons x xs)
  show ?case
  proof (cases "p x")
    case True
    then show ?thesis using Cons.prems by simp
  next
    case False
    then obtain k where k: "findRef p xs = Some k" "i = Suc k"
      using Cons.prems by auto
    from Cons.IH[OF k(1)] False k(2) show ?thesis
      by (auto simp: less_Suc_eq_0_disj)
  qed
qed

lemma findRef_None_iff: "findRef p xs = None \<longleftrightarrow> (\<forall>x \<in> set xs. \<not> p x)"
  by (induction xs) auto

lemma find_findRef: "find p xs = map_option (nth xs) (findRef p xs)"
  by (induction xs) (auto simp: option.map_comp comp_def)

lemma copy_lists: "map (\<lambda>l. l\<lparr>cards := cards l\<rparr>) xs = xs"
  by (induction xs) auto

lemma moveCard_absent:
  "findRef (\<lambda>l. list_id l = sourceListId) (lists b) = None
   \<or> findRef (\<lambda>l. list_id l = destListId) (lists b) = None
   \<Longrightarrow> moveCard sourceListId destListId sourceIndex destIndex b = b"
  by (auto simp: moveCard_def copy_lists Let_def split: option.splits)

lemma moveCard_out_of_range:
  "findRef (\<lambda>l. list_id l = sourceListId) (lists b) = Some s
   \<Longrightarrow> sourceIndex < 0 \<or> int (length (cards (lists b ! s))) \<le> sourceIndex
   \<Longrightarrow> moveCard sourceListId destListId sourceIndex destIndex b = b"
  by (auto simp: moveCard_def copy_lists Let_def split: option.splits)

lemma moveCard_success:
  assumes "findRef (\<lambda>l. list_id l = sourceListId) (lists b) = Some s"
    and "findRef (\<lambda>l. list_id l = destListId) (lists b) = Some d"
    and "0 \<le> sourceIndex" and "sourceIndex < int (length (cards (lists b ! s)))"
  shows "moveCard sourceListId destListId sourceIndex destIndex b =
    b\<lparr>lists :=
      (let newLists1 = (lists b)[s := (lists b ! s)\<lparr>cards :=
                          removeAt (nat sourceIndex) (cards (lists b ! s))\<rparr>];
           destCards = cards (newLists1 ! d)
       in newLists1[d := (newLists1 ! d)\<lparr>cards :=
            insertAt (actualStart (min destIndex (int (length destCards))) (length destCards))
              (cards (lists b ! s) ! nat sourceIndex) destCards\<rparr>])\<rparr>"
  using assms
  by (simp add: moveCard_def copy_lists spliceArr_remove spliceArr_insert Let_def)

lemma sum_list_map_update:
  "k < length xs \<Longrightarrow>
   sum_list (map f (xs[k := v])) + f (xs ! k) = sum_list (map f xs) + (f v :: nat)"
proof (induction xs arbitrary: k)
  case Nil
  then show ?case by simp
next
  case (Cons x xs)
  show ?case
  proof (cases k)
    case 0
    then show ?thesis by simp
  next
    case (Suc m)
    then have "m < length xs" using Cons.prems by simp
    from Cons.IH[OF this] Suc show ?thesis by simp
  qed
qed

text \<open>
  What \<open>moveCard\<close> does on destination indices that are not negative. If either list
  id is absent, or \<open>sourceIndex\<close> is outside \<open>[0, sourceList.length)\<close>, it returns the
  board unchanged. Otherwise it removes the card at \<open>sourceIndex\<close> from the source
  list and inserts it into the destination list at \<open>min(destIndex, destList.length)\<close>,
  where \<open>destList.length\<close> is read after the removal, as the source reads it. On a
  board with lists \<open>A = [c1, c2]\<close> and \<open>B = [c3]\<close>, \<open>moveCard(A, B, 0, 1)\<close> yields
  \<open>A = [c2]\<close> and \<open>B = [c3, c1]\<close>.
\<close>

theorem moveCard_spec:
  "(sourceListId \<notin> list_id ` set (lists b) \<or> destListId \<notin> list_id ` set (lists b)
      \<longrightarrow> moveCard sourceListId destListId sourceIndex destIndex b = b)
   \<and> (findRef (\<lambda>l. list_id l = sourceListId) (lists b) = Some s
        \<and> (sourceIndex < 0 \<or> int (length (cards (lists b ! s))) \<le> sourceIndex)
      \<longrightarrow> moveCard sourceListId destListId sourceIndex destIndex b = b)
   \<and> (findRef (\<lambda>l. list_id l = sourceListId) (lists b) = Some s
        \<and> findRef (\<lambda>l. list_id l = destListId) (lists b) = Some d
        \<and> 0 \<le> sourceIndex \<and> sourceIndex < int (length (cards (lists b ! s)))
        \<and> 0 \<le> destIndex
      \<longrightarrow> moveCard sourceListId destListId sourceIndex destIndex b =
          b\<lparr>lists :=
            (let newLists1 = (lists b)[s := (lists b ! s)\<lparr>cards :=
                                removeAt (nat sourceIndex) (cards (lists b ! s))\<rparr>];
                 destCards = cards (newLists1 ! d)
             in newLists1[d := (newLists1 ! d)\<lparr>cards :=
                  insertAt (min (nat destIndex) (length destCards))
                    (cards (lists b ! s) ! nat sourceIndex) destCards\<rparr>])\<rparr>)
   \<and> (A \<noteq> B \<longrightarrow>
        moveCard A B 0 1
          \<lparr>board_id = i, board_title = t,
           lists = [\<lparr>list_id = A, list_title = ta, cards = [c1, c2]\<rparr>,
                    \<lparr>list_id = B, list_title = tb, cards = [c3]\<rparr>]\<rparr>
        = \<lparr>board_id = i, board_title = t,
           lists = [\<lparr>list_id = A, list_title = ta, cards = [c2]\<rparr>,
                    \<lparr>list_id = B, list_title = tb, cards = [c3, c1]\<rparr>]\<rparr>)"
proof (intro conjI impI)
  assume "sourceListId \<notin> list_id ` set (lists b) \<or> destListId \<notin> list_id ` set (lists b)"
  then have "findRef (\<lambda>l. list_id l = sourceListId) (lists b) = None
           \<or> findRef (\<lambda>l. list_id l = destListId) (lists b) = None"
    by (auto simp: findRef_None_iff)
  then show "moveCard sourceListId destListId sourceIndex destIndex b = b"
    by (rule moveCard_absent)
next
  assume "findRef (\<lambda>l. list_id l = sourceListId) (lists b) = Some s
        \<and> (sourceIndex < 0 \<or> int (length (cards (lists b ! s))) \<le> sourceIndex)"
  then show "moveCard sourceListId destListId sourceIndex destIndex b = b"
    using moveCard_out_of_range by blast
next
  assume h: "findRef (\<lambda>l. list_id l = sourceListId) (lists b) = Some s
        \<and> findRef (\<lambda>l. list_id l = destListId) (lists b) = Some d
        \<and> 0 \<le> sourceIndex \<and> sourceIndex < int (length (cards (lists b ! s)))
        \<and> 0 \<le> destIndex"
  have pos: "actualStart (min destIndex (int n)) n = min (nat destIndex) n" for n
    using h by (simp add: actualStart_nonneg)
  show "moveCard sourceListId destListId sourceIndex destIndex b =
          b\<lparr>lists :=
            (let newLists1 = (lists b)[s := (lists b ! s)\<lparr>cards :=
                                removeAt (nat sourceIndex) (cards (lists b ! s))\<rparr>];
                 destCards = cards (newLists1 ! d)
             in newLists1[d := (newLists1 ! d)\<lparr>cards :=
                  insertAt (min (nat destIndex) (length destCards))
                    (cards (lists b ! s) ! nat sourceIndex) destCards\<rparr>])\<rparr>"
    using h moveCard_success[of sourceListId b s destListId d sourceIndex destIndex]
    by (simp only: pos)
next
  assume "A \<noteq> B"
  then show "moveCard A B 0 1
          \<lparr>board_id = i, board_title = t,
           lists = [\<lparr>list_id = A, list_title = ta, cards = [c1, c2]\<rparr>,
                    \<lparr>list_id = B, list_title = tb, cards = [c3]\<rparr>]\<rparr>
        = \<lparr>board_id = i, board_title = t,
           lists = [\<lparr>list_id = A, list_title = ta, cards = [c2]\<rparr>,
                    \<lparr>list_id = B, list_title = tb, cards = [c3, c1]\<rparr>]\<rparr>"
    by (simp add: moveCard_def spliceArr_def actualStart_def)
qed

text \<open>
  An instance on the initial board: the first card of \<open>list-1\<close> moves to the end of
  \<open>list-2\<close>; an unknown list id and a source index out of range change nothing.
\<close>

theorem moveCard_spec_witness:
  "map (\<lambda>l. map card_id (cards l))
     (lists (moveCard ''list-1'' ''list-2'' 0 1 (DEFAULT_BOARD ''2024-01-01T00:00:00.000Z'')))
     = [[''card-2''], [''card-3'', ''card-1''], []]
   \<and> moveCard ''list-9'' ''list-2'' 0 1 (DEFAULT_BOARD ''2024-01-01T00:00:00.000Z'')
     = DEFAULT_BOARD ''2024-01-01T00:00:00.000Z''
   \<and> moveCard ''list-1'' ''list-2'' 2 1 (DEFAULT_BOARD ''2024-01-01T00:00:00.000Z'')
     = DEFAULT_BOARD ''2024-01-01T00:00:00.000Z''"
  using moveCard_spec[of "''list-1''" "DEFAULT_BOARD ''2024-01-01T00:00:00.000Z''" "''list-2''"
          0 1 0 1]
        moveCard_spec[of "''list-9''" "DEFAULT_BOARD ''2024-01-01T00:00:00.000Z''" "''list-2''"
          0 1 0 1]
        moveCard_spec[of "''list-1''" "DEFAULT_BOARD ''2024-01-01T00:00:00.000Z''" "''list-2''"
          2 1 0 1]
  by (simp add: DEFAULT_BOARD_def insertAt_def removeAt_def Let_def)

text \<open>
  C1. The claim is that \<open>moveCard\<close> inserts the moved card at
  \<open>min(destIndex, destList.length)\<close>, a destination index out of range being clamped to
  the nearest valid position. The source computes \<open>clampedDest\<close> with \<open>Math.min\<close>
  only, so it clamps from above and not from below: a negative index reaches
  \<open>splice\<close>, which counts it from the end. On the initial board,
  \<open>moveCard(list-2, list-1, 0, -1)\<close> leaves \<open>card-3\<close> between the two cards of
  \<open>list-1\<close>, whereas the nearest valid position for \<open>-1\<close> is \<open>0\<close>, the front of the
  list.
\<close>

theorem moveCard_negative_destIndex_not_clamped:
  "map card_id (cards (lists (moveCard ''list-2'' ''list-1'' 0 (- 1) (DEFAULT_BOARD now)) ! 0))
     = [''card-1'', ''card-3'', ''card-2'']
   \<and> nearestValidPosition (- 1) (length (cards (lists (DEFAULT_BOARD now) ! 0))) = 0
   \<and> map card_id
        (insertAt (nearestValidPosition (- 1) (length (cards (lists (DEFAULT_BOARD now) ! 0))))
           (cards (lists (DEFAULT_BOARD now) ! 1) ! 0) (cards (lists (DEFAULT_BOARD now) ! 0)))
     = [''card-3'', ''card-1'', ''card-2'']
   \<and> cards (lists (moveCard ''list-2'' ''list-1'' 0 (- 1) (DEFAULT_BOARD now)) ! 0)
     \<noteq> insertAt (nearestValidPosition (- 1) (length (cards (lists (DEFAULT_BOARD now) ! 0))))
           (cards (lists (DEFAULT_BOARD now) ! 1) ! 0) (cards (lists (DEFAULT_BOARD now) ! 0))"
  by (simp add: moveCard_def spliceArr_def actualStart_def DEFAULT_BOARD_def
      nearestValidPosition_def insertAt_def)

lemma moveCard_success_lists:
  assumes "findRef (\<lambda>l. list_id l = sourceListId) (lists b) = Some s"
    and "findRef (\<lambda>l. list_id l = destListId) (lists b) = Some d"
    and "0 \<le> sourceIndex" and "sourceIndex < int (length (cards (lists b ! s)))"
  shows "\<exists>p S D. lists (moveCard sourceListId destListId sourceIndex destIndex b) =
            (lists b)[s := S, d := D]
          \<and> S = (lists b ! s)\<lparr>cards := removeAt (nat sourceIndex) (cards (lists b ! s))\<rparr>
          \<and> D = ((lists b)[s := S] ! d)\<lparr>cards :=
                  insertAt p (cards (lists b ! s) ! nat sourceIndex) (cards ((lists b)[s := S] ! d))\<rparr>
          \<and> p \<le> length (cards ((lists b)[s := S] ! d))"
proof -
  let ?S = "(lists b ! s)\<lparr>cards := removeAt (nat sourceIndex) (cards (lists b ! s))\<rparr>"
  let ?dc = "cards ((lists b)[s := ?S] ! d)"
  let ?p = "actualStart (min destIndex (int (length ?dc))) (length ?dc)"
  let ?D = "((lists b)[s := ?S] ! d)\<lparr>cards :=
              insertAt ?p (cards (lists b ! s) ! nat sourceIndex) ?dc\<rparr>"
  have "lists (moveCard sourceListId destListId sourceIndex destIndex b) = (lists b)[s := ?S, d := ?D]"
    using moveCard_success[OF assms, of destIndex] by (simp add: Let_def)
  moreover have "?p \<le> length ?dc" by (rule actualStart_le)
  ultimately show ?thesis by blast
qed

text \<open>
  C4. A \<open>moveCard\<close> call that succeeds (both list ids present, \<open>sourceIndex\<close> in range)
  keeps the number of cards of the whole board, and the number of cards summed over
  the source and the destination list (at positions \<open>s\<close> and \<open>d\<close>, which coincide
  when the call reorders one list).
\<close>

theorem moveCard_conserves_cards:
  "findRef (\<lambda>l. list_id l = sourceListId) (lists b) = Some s
   \<and> findRef (\<lambda>l. list_id l = destListId) (lists b) = Some d
   \<and> 0 \<le> sourceIndex \<and> sourceIndex < int (length (cards (lists b ! s)))
   \<longrightarrow> totalCards (moveCard sourceListId destListId sourceIndex destIndex b) = totalCards b
     \<and> (\<Sum>k \<in> {s, d}. length (cards (lists (moveCard sourceListId destListId sourceIndex destIndex b) ! k)))
       = (\<Sum>k \<in> {s, d}. length (cards (lists b ! k)))
     \<and> length (lists (moveCard sourceListId destListId sourceIndex destIndex b)) = length (lists b)"
proof (intro impI)
  assume h: "findRef (\<lambda>l. list_id l = sourceListId) (lists b) = Some s
   \<and> findRef (\<lambda>l. list_id l = destListId) (lists b) = Some d
   \<and> 0 \<le> sourceIndex \<and> sourceIndex < int (length (cards (lists b ! s)))"
  let ?b' = "moveCard sourceListId destListId sourceIndex destIndex b"
  let ?xs = "lists b"
  let ?f = "\<lambda>l. length (cards l)"
  from h have s: "s < length ?xs" and d: "d < length ?xs"
    using findRef_Some by blast+
  from h have si: "nat sourceIndex < length (cards (?xs ! s))" by linarith
  from h obtain p S D where
    L: "lists ?b' = ?xs[s := S, d := D]"
    and S: "S = (?xs ! s)\<lparr>cards := removeAt (nat sourceIndex) (cards (?xs ! s))\<rparr>"
    and D: "D = (?xs[s := S] ! d)\<lparr>cards :=
                  insertAt p (cards (?xs ! s) ! nat sourceIndex) (cards (?xs[s := S] ! d))\<rparr>"
    using moveCard_success_lists[of sourceListId b s destListId d sourceIndex destIndex] by blast
  have fS: "?f S + 1 = ?f (?xs ! s)"
    using si by (simp add: S length_removeAt)
  have fD: "?f D = ?f (?xs[s := S] ! d) + 1"
    by (simp add: D length_insertAt)
  have 1: "sum_list (map ?f (?xs[s := S])) + ?f (?xs ! s) = sum_list (map ?f ?xs) + ?f S"
    using s by (rule sum_list_map_update)
  have 2: "sum_list (map ?f (?xs[s := S, d := D])) + ?f (?xs[s := S] ! d)
         = sum_list (map ?f (?xs[s := S])) + ?f D"
    using d by (intro sum_list_map_update) simp
  have total: "totalCards ?b' = totalCards b"
    unfolding totalCards_def L using 1 2 fS fD by linarith
  have pair: "(\<Sum>k \<in> {s, d}. ?f (lists ?b' ! k)) = (\<Sum>k \<in> {s, d}. ?f (?xs ! k))"
  proof (cases "s = d")
    case True
    then show ?thesis using s fS fD by (simp add: L)
  next
    case False
    then show ?thesis using s d fS fD by (simp add: L)
  qed
  have len: "length (lists ?b') = length ?xs" by (simp add: L)
  show "totalCards ?b' = totalCards b
     \<and> (\<Sum>k \<in> {s, d}. ?f (lists ?b' ! k)) = (\<Sum>k \<in> {s, d}. ?f (?xs ! k))
     \<and> length (lists ?b') = length ?xs"
    using total pair len by (intro conjI)
qed

text \<open>
  The instance of C4 on the initial board, for a move from \<open>list-1\<close> to \<open>list-2\<close> and
  for a reorder inside \<open>list-1\<close>: three cards before and after.
\<close>

theorem moveCard_conserves_cards_witness:
  "totalCards (moveCard ''list-1'' ''list-2'' 0 1 (DEFAULT_BOARD ''2024-01-01T00:00:00.000Z''))
     = totalCards (DEFAULT_BOARD ''2024-01-01T00:00:00.000Z'')
   \<and> totalCards (moveCard ''list-1'' ''list-1'' 0 1 (DEFAULT_BOARD ''2024-01-01T00:00:00.000Z''))
     = totalCards (DEFAULT_BOARD ''2024-01-01T00:00:00.000Z'')
   \<and> totalCards (DEFAULT_BOARD ''2024-01-01T00:00:00.000Z'') = 3"
  using moveCard_conserves_cards[of "''list-1''" "DEFAULT_BOARD ''2024-01-01T00:00:00.000Z''" 0
          "''list-2''" 1 0 1]
        moveCard_conserves_cards[of "''list-1''" "DEFAULT_BOARD ''2024-01-01T00:00:00.000Z''" 0
          "''list-1''" 0 0 1]
  by (simp add: DEFAULT_BOARD_def totalCards_def)

text \<open>
  C10. When source and destination are the same list (at position \<open>s\<close>, of \<open>n\<close> cards)
  and \<open>sourceIndex\<close> is valid, \<open>moveCard\<close> clamps \<open>destIndex\<close> against the length
  after the removal, \<open>n - 1\<close>. Any \<open>destIndex \<ge> n - 1\<close> places the moved card at the
  last position, and the other cards keep their relative order: without the moved
  card, the list is the original list without it.
\<close>

theorem moveCard_same_list:
  "findRef (\<lambda>l. list_id l = listId) (lists b) = Some s
   \<and> 0 \<le> sourceIndex \<and> sourceIndex < int (length (cards (lists b ! s)))
   \<longrightarrow>
   (let cs = cards (lists b ! s);
        n = length cs;
        moved = cs ! nat sourceIndex;
        others = removeAt (nat sourceIndex) cs;
        cs' = cards (lists (moveCard listId listId sourceIndex destIndex b) ! s)
    in (0 \<le> destIndex \<longrightarrow>
          moveCard listId listId sourceIndex destIndex b =
            b\<lparr>lists := (lists b)[s := (lists b ! s)\<lparr>cards :=
                          insertAt (min (nat destIndex) (n - 1)) moved others\<rparr>]\<rparr>)
       \<and> (int n - 1 \<le> destIndex \<longrightarrow>
            cs' = others @ [moved] \<and> length cs' = n \<and> cs' ! (n - 1) = moved
            \<and> removeAt (n - 1) cs' = others))"
proof (intro impI)
  assume h: "findRef (\<lambda>l. list_id l = listId) (lists b) = Some s
   \<and> 0 \<le> sourceIndex \<and> sourceIndex < int (length (cards (lists b ! s)))"
  let ?cs = "cards (lists b ! s)"
  let ?n = "length ?cs"
  let ?moved = "?cs ! nat sourceIndex"
  let ?others = "removeAt (nat sourceIndex) ?cs"
  let ?b' = "moveCard listId listId sourceIndex destIndex b"
  let ?cs' = "cards (lists ?b' ! s)"
  from h have s: "s < length (lists b)" using findRef_Some by blast
  from h have si: "nat sourceIndex < ?n" by linarith
  have lo: "length ?others = ?n - 1" using si by (rule length_removeAt)
  have gen: "?b' = b\<lparr>lists := (lists b)[s := (lists b ! s)\<lparr>cards :=
                 insertAt (actualStart (min destIndex (int (?n - 1))) (?n - 1)) ?moved ?others\<rparr>]\<rparr>"
    using h s moveCard_success[of listId b s listId s sourceIndex destIndex]
    by (simp add: Let_def lo)
  have A: "0 \<le> destIndex \<Longrightarrow>
      ?b' = b\<lparr>lists := (lists b)[s := (lists b ! s)\<lparr>cards :=
                 insertAt (min (nat destIndex) (?n - 1)) ?moved ?others\<rparr>]\<rparr>"
  proof -
    assume "0 \<le> destIndex"
    then have "actualStart (min destIndex (int (?n - 1))) (?n - 1) = min (nat destIndex) (?n - 1)"
      by (simp add: actualStart_nonneg)
    then show ?thesis using gen by simp
  qed
  have B: "int ?n - 1 \<le> destIndex \<Longrightarrow>
      ?cs' = ?others @ [?moved] \<and> length ?cs' = ?n \<and> ?cs' ! (?n - 1) = ?moved
      \<and> removeAt (?n - 1) ?cs' = ?others"
  proof -
    assume d: "int ?n - 1 \<le> destIndex"
    then have d0: "0 \<le> destIndex" using si by linarith
    have "min (nat destIndex) (?n - 1) = ?n - 1" using d si by linarith
    then have ins: "?cs' = insertAt (?n - 1) ?moved ?others"
      using A[OF d0] s by simp
    then have e: "?cs' = ?others @ [?moved]"
      by (simp add: insertAt_end lo)
    have l: "length ?cs' = ?n" using e lo si by simp
    have x: "?cs' ! (?n - 1) = ?moved" using e lo by (simp add: nth_append)
    have "removeAt (?n - 1) (insertAt (?n - 1) ?moved ?others) = ?others"
      by (rule removeAt_insertAt) (simp add: lo)
    then have r: "removeAt (?n - 1) ?cs' = ?others"
      by (simp only: ins)
    show ?thesis using e l x r by (intro conjI)
  qed
  show "let cs = ?cs; n = length cs; moved = cs ! nat sourceIndex;
        others = removeAt (nat sourceIndex) cs;
        cs' = cards (lists (moveCard listId listId sourceIndex destIndex b) ! s)
    in (0 \<le> destIndex \<longrightarrow>
          moveCard listId listId sourceIndex destIndex b =
            b\<lparr>lists := (lists b)[s := (lists b ! s)\<lparr>cards :=
                          insertAt (min (nat destIndex) (n - 1)) moved others\<rparr>]\<rparr>)
       \<and> (int n - 1 \<le> destIndex \<longrightarrow>
            cs' = others @ [moved] \<and> length cs' = n \<and> cs' ! (n - 1) = moved
            \<and> removeAt (n - 1) cs' = others)"
    unfolding Let_def using A B by blast
qed

text \<open>
  The instance of C10 on the initial board: in \<open>list-1 = [card-1, card-2]\<close>, moving the
  card at index 0 to index 1, or to index 7, puts it last.
\<close>

theorem moveCard_same_list_witness:
  "map card_id (cards (lists
      (moveCard ''list-1'' ''list-1'' 0 1 (DEFAULT_BOARD ''2024-01-01T00:00:00.000Z'')) ! 0))
     = [''card-2'', ''card-1'']
   \<and> map card_id (cards (lists
      (moveCard ''list-1'' ''list-1'' 0 7 (DEFAULT_BOARD ''2024-01-01T00:00:00.000Z'')) ! 0))
     = [''card-2'', ''card-1'']"
  using moveCard_same_list[of "''list-1''" "DEFAULT_BOARD ''2024-01-01T00:00:00.000Z''" 0 0 1]
        moveCard_same_list[of "''list-1''" "DEFAULT_BOARD ''2024-01-01T00:00:00.000Z''" 0 0 7]
  by (simp add: DEFAULT_BOARD_def removeAt_def insertAt_def Let_def)

section \<open>The drag session\<close>

text \<open>
  C7. Cancelling a drag does not change the board. It resets the active id, the active
  kind and the just-switched flag, and leaves the last known target as it is. A move
  that a hover has already applied stays: the board after hover and cancel is the board
  after the hover.
\<close>

theorem handleDragCancel_keeps_board:
  "board (handleDragCancel st) = board st
   \<and> session (handleDragCancel st) =
       (session st)\<lparr>activeId := None, activeType := None,
                     recentlyMovedToNewContainer := False\<rparr>
   \<and> lastOverId (session (handleDragCancel st)) = lastOverId (session st)
   \<and> board (handleDragCancel (handleDragOver event st)) = board (handleDragOver event st)"
  by (simp add: handleDragCancel_def)

text \<open>
  An instance of C7: on the initial board, a card drag of \<open>card-1\<close> hovers over the
  empty \<open>list-3\<close>, which moves the card there, and is then cancelled. The card stays in
  \<open>list-3\<close>.
\<close>

theorem handleDragCancel_keeps_board_witness:
  "map (\<lambda>l. map card_id (cards l)) (lists (board (handleDragCancel (handleDragOver
      \<lparr>active = \<lparr>active_id = ''card-1'', active_kind = Some CardKind, translated = None\<rparr>,
       over = Some \<lparr>over_id = ''list-3'', over_rect = \<lparr>rect_top = 0, rect_height = 100\<rparr>\<rparr>\<rparr>
      \<lparr>board = DEFAULT_BOARD ''2024-01-01T00:00:00.000Z'',
       session = \<lparr>activeId = Some ''card-1'', activeType = Some CardKind,
                  lastOverId = None, recentlyMovedToNewContainer = False\<rparr>\<rparr>))))
   = [[''card-2''], [''card-3''], [''card-1'']]"
  using handleDragCancel_keeps_board[of
      "\<lparr>board = DEFAULT_BOARD ''2024-01-01T00:00:00.000Z'',
       session = \<lparr>activeId = Some ''card-1'', activeType = Some CardKind,
                  lastOverId = None, recentlyMovedToNewContainer = False\<rparr>\<rparr>"
      "\<lparr>active = \<lparr>active_id = ''card-1'', active_kind = Some CardKind, translated = None\<rparr>,
       over = Some \<lparr>over_id = ''list-3'', over_rect = \<lparr>rect_top = 0, rect_height = 100\<rparr>\<rparr>\<rparr>"]
  by (simp add: handleDragOver_def findContainer_def listIds_def DEFAULT_BOARD_def
      moveCard_def spliceArr_def actualStart_def)

lemma closestCenterModel_ids:
  "set (map collision_id (closestCenterModel args)) = set (map droppable_id (droppableContainers args))"
  by (simp add: closestCenterModel_def comp_def)

text \<open>
  C8. When the active drag kind is \<open>list\<close>, the strategy hands the closest-centre
  detection only the droppable containers whose id is a list id and returns what it
  answers, without touching the session. For every closest-centre detection that
  answers with ids of the containers it is given, every returned id is a list id; it is
  not a card id, as list ids and card ids are disjoint.
\<close>

theorem collision_list_drag_only_lists:
  "(\<forall>a. set (map collision_id (closestCenter a)) \<subseteq> set (map droppable_id (droppableContainers a)))
   \<and> activeType (session st) = Some ListKind
   \<longrightarrow>
   collisionDetectionStrategy closestCenter pointerWithin rectIntersection args st =
     (closestCenter (args\<lparr>droppableContainers :=
        filter (\<lambda>container. droppable_id container \<in> set (listIds (board st)))
          (droppableContainers args)\<rparr>), st)
   \<and> (\<forall>c \<in> set (fst (collisionDetectionStrategy closestCenter pointerWithin rectIntersection args st)).
         collision_id c \<in> set (listIds (board st))
         \<and> (set (listIds (board st)) \<inter> set (allCardIds (board st)) = {}
              \<longrightarrow> collision_id c \<notin> set (allCardIds (board st))))"
proof (intro impI)
  assume h: "(\<forall>a. set (map collision_id (closestCenter a)) \<subseteq> set (map droppable_id (droppableContainers a)))
   \<and> activeType (session st) = Some ListKind"
  let ?args = "args\<lparr>droppableContainers :=
        filter (\<lambda>container. droppable_id container \<in> set (listIds (board st)))
          (droppableContainers args)\<rparr>"
  have r: "collisionDetectionStrategy closestCenter pointerWithin rectIntersection args st =
     (closestCenter ?args, st)"
    using h by (simp add: collisionDetectionStrategy_def)
  have "set (map collision_id (closestCenter ?args)) \<subseteq> set (map droppable_id (droppableContainers ?args))"
    using h by blast
  then have i: "collision_id c \<in> set (listIds (board st))" if "c \<in> set (closestCenter ?args)" for c
    using that by auto
  show "collisionDetectionStrategy closestCenter pointerWithin rectIntersection args st =
     (closestCenter ?args, st)
   \<and> (\<forall>c \<in> set (fst (collisionDetectionStrategy closestCenter pointerWithin rectIntersection args st)).
         collision_id c \<in> set (listIds (board st))
         \<and> (set (listIds (board st)) \<inter> set (allCardIds (board st)) = {}
              \<longrightarrow> collision_id c \<notin> set (allCardIds (board st))))"
    using r i by auto
qed

text \<open>
  An instance of C8: a list drag on the initial board, with droppable containers for
  the three lists and for the card \<open>card-1\<close>, and the closest-centre detection of the
  model. The card's container is nearest to the dragged rectangle and is not returned.
\<close>

theorem collision_list_drag_only_lists_witness:
  "map collision_id (fst (collisionDetectionStrategy closestCenterModel (\<lambda>a. []) (\<lambda>a. [])
      \<lparr>collisionCenter = (10, 10),
       droppableContainers =
         [\<lparr>droppable_id = ''list-1'', droppable_center = (100, 200)\<rparr>,
          \<lparr>droppable_id = ''card-1'', droppable_center = (10, 12)\<rparr>,
          \<lparr>droppable_id = ''list-2'', droppable_center = (40, 20)\<rparr>,
          \<lparr>droppable_id = ''list-3'', droppable_center = (700, 200)\<rparr>]\<rparr>
      \<lparr>board = DEFAULT_BOARD ''2024-01-01T00:00:00.000Z'',
       session = \<lparr>activeId = Some ''list-1'', activeType = Some ListKind,
                  lastOverId = None, recentlyMovedToNewContainer = False\<rparr>\<rparr>))
   = [''list-2'', ''list-1'', ''list-3'']"
  using collision_list_drag_only_lists[of closestCenterModel
      "\<lparr>board = DEFAULT_BOARD ''2024-01-01T00:00:00.000Z'',
       session = \<lparr>activeId = Some ''list-1'', activeType = Some ListKind,
                  lastOverId = None, recentlyMovedToNewContainer = False\<rparr>\<rparr>"
      "\<lambda>a. []" "\<lambda>a. []"
      "\<lparr>collisionCenter = (10, 10),
       droppableContainers =
         [\<lparr>droppable_id = ''list-1'', droppable_center = (100, 200)\<rparr>,
          \<lparr>droppable_id = ''card-1'', droppable_center = (10, 12)\<rparr>,
          \<lparr>droppable_id = ''list-2'', droppable_center = (40, 20)\<rparr>,
          \<lparr>droppable_id = ''list-3'', droppable_center = (700, 200)\<rparr>]\<rparr>"]
    closestCenterModel_ids
  by (simp add: closestCenterModel_def sqDist_def listIds_def DEFAULT_BOARD_def)

section \<open>Hovering\<close>

lemma findIndex_ge: "- 1 \<le> findIndex p xs"
  by (induction xs) (auto simp: Let_def)

lemma findIndex_none_iff: "findIndex p xs = - 1 \<longleftrightarrow> (\<forall>x \<in> set xs. \<not> p x)"
proof (induction xs)
  case Nil
  then show ?case by simp
next
  case (Cons x xs)
  have "- 1 \<le> findIndex p xs" by (rule findIndex_ge)
  then have "findIndex p xs + 1 \<noteq> - 1" by linarith
  then show ?case using Cons by (auto simp: Let_def)
qed

lemma findIndex_found:
  "findIndex p xs \<noteq> - 1 \<Longrightarrow>
   0 \<le> findIndex p xs \<and> findIndex p xs < int (length xs) \<and> p (xs ! nat (findIndex p xs))"
proof (induction xs)
  case Nil
  then show ?case by simp
next
  case (Cons x xs)
  show ?case
  proof (cases "p x")
    case True
    then show ?thesis by simp
  next
    case False
    then have n: "findIndex p xs \<noteq> - 1" using Cons.prems by (auto simp: Let_def split: if_splits)
    from Cons.IH[OF n] have ih: "0 \<le> findIndex p xs" "findIndex p xs < int (length xs)"
      "p (xs ! nat (findIndex p xs))" by auto
    have "nat (findIndex p xs + 1) = Suc (nat (findIndex p xs))" using ih(1) by linarith
    then show ?thesis using False n ih by (simp add: Let_def)
  qed
qed

lemma findRef_first:
  "i < length xs \<Longrightarrow> p (xs ! i) \<Longrightarrow> (\<forall>j < i. \<not> p (xs ! j)) \<Longrightarrow> findRef p xs = Some i"
proof (induction xs arbitrary: i)
  case Nil
  then show ?case by simp
next
  case (Cons x xs)
  show ?case
  proof (cases i)
    case 0
    then show ?thesis using Cons.prems by simp
  next
    case (Suc k)
    have "\<not> p x" using Cons.prems(3) Suc by auto
    moreover have "findRef p xs = Some k"
    proof (rule Cons.IH)
      show "k < length xs" using Cons.prems(1) Suc by simp
      show "p (xs ! k)" using Cons.prems(2) Suc by simp
      show "\<forall>j < k. \<not> p (xs ! j)" using Cons.prems(3) Suc by auto
    qed
    ultimately show ?thesis using Suc by simp
  qed
qed

lemma findRef_cong_map:
  "map p xs = map q ys \<Longrightarrow> findRef p xs = findRef q ys"
proof (induction xs arbitrary: ys)
  case Nil
  then show ?case by simp
next
  case (Cons x xs)
  then obtain y ys' where ys: "ys = y # ys'" by (cases ys) auto
  with Cons.prems have "p x = q y" "map p xs = map q ys'" by auto
  with Cons.IH[of ys'] ys show ?case by simp
qed

lemma distinct_concat_disjoint:
  "distinct (concat xss) \<Longrightarrow> j < k \<Longrightarrow> k < length xss \<Longrightarrow> set (xss ! j) \<inter> set (xss ! k) = {}"
proof (induction xss arbitrary: j k)
  case Nil
  then show ?case by simp
next
  case (Cons xs xss)
  obtain k' where k: "k = Suc k'" using Cons.prems(2) by (cases k) auto
  have k': "k' < length xss" using Cons.prems(3) k by simp
  show ?case
  proof (cases j)
    case 0
    have "xss ! k' \<in> set xss" using k' by simp
    then have "set xs \<inter> set (xss ! k') = {}" using Cons.prems(1) by auto
    then show ?thesis using 0 k by simp
  next
    case (Suc j')
    have "set (xss ! j') \<inter> set (xss ! k') = {}"
      using Cons.prems Suc k k' by (intro Cons.IH) auto
    then show ?thesis using Suc k by simp
  qed
qed

lemma distinct_concat_nth:
  "distinct (concat xss) \<Longrightarrow> k < length xss \<Longrightarrow> distinct (xss ! k)"
  by (induction xss arbitrary: k) (auto simp: nth_Cons split: nat.splits)

lemma set_removeAt_subset: "set (removeAt i xs) \<subseteq> set xs"
  unfolding removeAt_def using set_take_subset set_drop_subset by fastforce

lemma set_removeAt_insert: "i < length xs \<Longrightarrow> insert (xs ! i) (set (removeAt i xs)) = set xs"
proof -
  assume i: "i < length xs"
  have "set xs = set (take i xs @ xs ! i # drop (Suc i) xs)"
    using id_take_nth_drop[OF i] by simp
  then show ?thesis by (simp add: removeAt_def)
qed

lemma removeAt_distinct_map:
  assumes "distinct (map f xs)" "i < length xs"
  shows "f (xs ! i) \<notin> f ` set (removeAt i xs)"
proof -
  have "map f xs = map f (take i xs) @ f (xs ! i) # map f (drop (Suc i) xs)"
    using id_take_nth_drop[OF assms(2)] by (metis list.simps(9) map_append)
  then have "distinct (map f (take i xs) @ f (xs ! i) # map f (drop (Suc i) xs))"
    using assms(1) by simp
  then show ?thesis by (auto simp: removeAt_def)
qed

lemma set_insertAt: "set (insertAt i x xs) = insert x (set xs)"
proof -
  have "set (take i xs) \<union> set (drop i xs) = set xs"
    by (metis append_take_drop_id set_append)
  then show ?thesis by (simp add: insertAt_def)
qed

lemma findContainer_alt:
  "findContainer b x =
    (if x \<in> list_id ` set (lists b) then Some x
     else map_option (\<lambda>k. list_id (lists b ! k))
            (findRef (\<lambda>l. x \<in> card_id ` set (cards l)) (lists b)))"
proof -
  have 1: "list_ex (\<lambda>l. list_id l = x) (lists b) \<longleftrightarrow> x \<in> list_id ` set (lists b)"
    by (auto simp: list_ex_iff)
  have 2: "(\<lambda>l. list_ex (\<lambda>c. card_id c = x) (cards l)) = (\<lambda>l. x \<in> card_id ` set (cards l))"
    by (auto simp: list_ex_iff)
  show ?thesis
    by (simp add: findContainer_def 1 2 find_findRef option.map_comp comp_def)
qed

lemma findContainer_cong:
  assumes "map list_id (lists b') = map list_id (lists b)"
    and "map (\<lambda>l. x \<in> card_id ` set (cards l)) (lists b')
       = map (\<lambda>l. x \<in> card_id ` set (cards l)) (lists b)"
  shows "findContainer b' x = findContainer b x"
proof -
  have ids: "list_id ` set (lists b') = list_id ` set (lists b)"
    using assms(1) by (metis set_map)
  have r: "findRef (\<lambda>l. x \<in> card_id ` set (cards l)) (lists b')
         = findRef (\<lambda>l. x \<in> card_id ` set (cards l)) (lists b)"
    using assms(2) by (rule findRef_cong_map)
  have len: "length (lists b') = length (lists b)"
    using assms(1) by (metis length_map)
  have n: "list_id (lists b' ! k) = list_id (lists b ! k)" if "k < length (lists b)" for k
    using that assms(1) len by (metis nth_map)
  show ?thesis
  proof (cases "findRef (\<lambda>l. x \<in> card_id ` set (cards l)) (lists b)")
    case None
    then show ?thesis by (simp add: findContainer_alt ids r)
  next
    case (Some k)
    then have "k < length (lists b)" using findRef_Some by blast
    then show ?thesis using Some by (simp add: findContainer_alt ids r n)
  qed
qed

lemma handleDragOver_same_container:
  "over event = Some ov \<Longrightarrow>
   findContainer (board st) (active_id (active event)) = findContainer (board st) (over_id ov) \<Longrightarrow>
   handleDragOver event st = st"
  by (auto simp: handleDragOver_def split: option.splits)

lemma handleDragOver_no_index:
  "findContainer (board st) (active_id (active event)) = Some ac \<Longrightarrow>
   find (\<lambda>l. list_id l = ac) (lists (board st)) = Some sl \<Longrightarrow>
   findIndex (\<lambda>c. card_id c = active_id (active event)) (cards sl) = - 1 \<Longrightarrow>
   handleDragOver event st = st"
  by (auto simp: handleDragOver_def Let_def split: option.splits)

lemma handleDragOver_cases:
  "handleDragOver event st = st \<or>
   (\<exists>ov ac oc sl dl ni.
      over event = Some ov \<and> activeType (session st) = Some CardKind
      \<and> findContainer (board st) (active_id (active event)) = Some ac
      \<and> findContainer (board st) (over_id ov) = Some oc \<and> ac \<noteq> oc
      \<and> find (\<lambda>l. list_id l = ac) (lists (board st)) = Some sl
      \<and> find (\<lambda>l. list_id l = oc) (lists (board st)) = Some dl
      \<and> findIndex (\<lambda>c. card_id c = active_id (active event)) (cards sl) \<noteq> - 1
      \<and> handleDragOver event st =
          st\<lparr>session := (session st)\<lparr>recentlyMovedToNewContainer := True\<rparr>,
             board := moveCard ac oc
               (findIndex (\<lambda>c. card_id c = active_id (active event)) (cards sl)) ni (board st)\<rparr>)"
proof (cases "handleDragOver event st = st")
  case True
  then show ?thesis by simp
next
  case changed: False
  obtain ov where ov: "over event = Some ov"
    using changed by (cases "over event") (simp_all add: handleDragOver_def)
  have kind: "activeType (session st) = Some CardKind"
    using changed ov by (cases "activeType (session st) = Some CardKind")
      (simp_all add: handleDragOver_def)
  obtain ac where ac: "findContainer (board st) (active_id (active event)) = Some ac"
    using changed ov kind
    by (cases "findContainer (board st) (active_id (active event))")
       (simp_all add: handleDragOver_def)
  obtain oc where oc: "findContainer (board st) (over_id ov) = Some oc"
    using changed ov kind ac
    by (cases "findContainer (board st) (over_id ov)") (simp_all add: handleDragOver_def)
  have ne: "ac \<noteq> [] \<and> oc \<noteq> [] \<and> ac \<noteq> oc"
    using changed ov kind ac oc
    by (cases "ac = [] \<or> oc = [] \<or> ac = oc") (auto simp add: handleDragOver_def)
  obtain sl where sl: "find (\<lambda>l. list_id l = ac) (lists (board st)) = Some sl"
    using changed ov kind ac oc ne
    by (cases "find (\<lambda>l. list_id l = ac) (lists (board st))")
       (simp_all add: handleDragOver_def)
  obtain dl where dl: "find (\<lambda>l. list_id l = oc) (lists (board st)) = Some dl"
    using changed ov kind ac oc ne sl
    by (cases "find (\<lambda>l. list_id l = oc) (lists (board st))")
       (simp_all add: handleDragOver_def)
  have ai: "findIndex (\<lambda>c. card_id c = active_id (active event)) (cards sl) \<noteq> - 1"
    using changed ov kind ac oc ne sl dl
    by (cases "findIndex (\<lambda>c. card_id c = active_id (active event)) (cards sl) = - 1")
       (simp_all add: handleDragOver_def)
  have "\<exists>ni. handleDragOver event st =
          st\<lparr>session := (session st)\<lparr>recentlyMovedToNewContainer := True\<rparr>,
             board := moveCard ac oc
               (findIndex (\<lambda>c. card_id c = active_id (active event)) (cards sl)) ni (board st)\<rparr>"
    using ov kind ac oc ne sl dl ai
    by (simp add: handleDragOver_def Let_def del: findIndex.simps) blast
  then show ?thesis using ov kind ac oc ne sl dl ai by blast
qed

lemma unique_card_other_lists:
  assumes "distinct (allCardIds b)" "s < length (lists b)" "k < length (lists b)" "k \<noteq> s"
    and "a \<in> card_id ` set (cards (lists b ! s))"
  shows "a \<notin> card_id ` set (cards (lists b ! k))"
proof -
  let ?xss = "map (\<lambda>l. map card_id (cards l)) (lists b)"
  have d: "distinct (concat ?xss)" using assms(1) by (simp add: allCardIds_def)
  have "set (?xss ! s) \<inter> set (?xss ! k) = {}"
  proof (cases "s < k")
    case True
    then show ?thesis using distinct_concat_disjoint[OF d, of s k] assms(3) by simp
  next
    case False
    then have "k < s" using assms(4) by simp
    then show ?thesis using distinct_concat_disjoint[OF d, of k s] assms(2) by auto
  qed
  then show ?thesis using assms(2,3,5) by auto
qed

lemma unique_card_in_list:
  assumes "distinct (allCardIds b)" "s < length (lists b)"
  shows "distinct (map card_id (cards (lists b ! s)))"
proof -
  let ?xss = "map (\<lambda>l. map card_id (cards l)) (lists b)"
  have "distinct (concat ?xss)" using assms(1) by (simp add: allCardIds_def)
  then have "distinct (?xss ! s)" using assms(2) by (intro distinct_concat_nth) simp_all
  then show ?thesis using assms(2) by simp
qed

lemma map_pred_cong:
  "map f xs = map f ys \<Longrightarrow> map (\<lambda>x. f x = a) xs = map (\<lambda>x. f x = a) ys"
proof (induction xs arbitrary: ys)
  case Nil
  then show ?case by simp
next
  case (Cons x xs)
  then obtain y ys' where "ys = y # ys'" by (cases ys) auto
  with Cons show ?case by auto
qed

lemma handleDragOver_idem:
  assumes dist: "distinct (allCardIds (board st))"
  shows "handleDragOver event (handleDragOver event st) = handleDragOver event st"
proof -
  let ?a = "active_id (active event)"
  let ?b = "board st"
  let ?L = "lists ?b"
  consider (noop) "handleDragOver event st = st"
    | (move) ov ac oc sl dl ni where
      "over event = Some ov" "activeType (session st) = Some CardKind"
      "findContainer ?b ?a = Some ac" "findContainer ?b (over_id ov) = Some oc" "ac \<noteq> oc"
      "find (\<lambda>l. list_id l = ac) ?L = Some sl" "find (\<lambda>l. list_id l = oc) ?L = Some dl"
      "findIndex (\<lambda>c. card_id c = ?a) (cards sl) \<noteq> - 1"
      "handleDragOver event st =
          st\<lparr>session := (session st)\<lparr>recentlyMovedToNewContainer := True\<rparr>,
             board := moveCard ac oc (findIndex (\<lambda>c. card_id c = ?a) (cards sl)) ni ?b\<rparr>"
    using handleDragOver_cases[of event st] by blast
  then show ?thesis
  proof cases
    case noop
    then show ?thesis by simp
  next
    case move
    let ?o = "over_id ov"
    obtain s where s: "findRef (\<lambda>l. list_id l = ac) ?L = Some s" and sl: "sl = ?L ! s"
      using move(6) by (auto simp: find_findRef)
    obtain d where d: "findRef (\<lambda>l. list_id l = oc) ?L = Some d" and dl: "dl = ?L ! d"
      using move(7) by (auto simp: find_findRef)
    let ?ai = "findIndex (\<lambda>c. card_id c = ?a) (cards (?L ! s))"
    let ?b1 = "moveCard ac oc ?ai ni ?b"
    let ?st1 = "st\<lparr>session := (session st)\<lparr>recentlyMovedToNewContainer := True\<rparr>, board := ?b1\<rparr>"
    have m8: "?ai \<noteq> - 1" using move(8) sl by simp
    have m9: "handleDragOver event st = ?st1" using move(9) sl by simp
    have sp: "s < length ?L" "list_id (?L ! s) = ac" using findRef_Some[OF s] by auto
    have dp: "d < length ?L" "list_id (?L ! d) = oc" using findRef_Some[OF d] by auto
    have sd: "s \<noteq> d" using sp dp move(5) by auto
    have aip: "0 \<le> ?ai" "?ai < int (length (cards (?L ! s)))"
      "card_id (cards (?L ! s) ! nat ?ai) = ?a"
      using findIndex_found[OF m8] by auto
    have ain: "nat ?ai < length (cards (?L ! s))" using aip by linarith
    obtain p S D where
      L1: "lists ?b1 = ?L[s := S, d := D]"
      and S: "S = (?L ! s)\<lparr>cards := removeAt (nat ?ai) (cards (?L ! s))\<rparr>"
      and D0: "D = (?L[s := S] ! d)\<lparr>cards :=
                 insertAt p (cards (?L ! s) ! nat ?ai) (cards (?L[s := S] ! d))\<rparr>"
      using moveCard_success_lists[OF s d aip(1) aip(2), of ni] by blast
    have "?L[s := S] ! d = ?L ! d" using sd by simp
    then have D: "D = (?L ! d)\<lparr>cards := insertAt p (cards (?L ! s) ! nat ?ai) (cards (?L ! d))\<rparr>"
      using D0 by simp
    have nS: "lists ?b1 ! s = S" using L1 sp sd by simp
    have nD: "lists ?b1 ! d = D" using L1 dp by simp
    have nO: "lists ?b1 ! k = ?L ! k" if "k \<noteq> s" "k \<noteq> d" for k
      using L1 that by simp
    have len: "length (lists ?b1) = length ?L" using L1 by simp
    have ids: "map list_id (lists ?b1) = map list_id ?L"
    proof (rule nth_equalityI)
      show "length (map list_id (lists ?b1)) = length (map list_id ?L)" using len by simp
    next
      fix k assume "k < length (map list_id (lists ?b1))"
      then have k: "k < length ?L" using len by simp
      have "list_id (lists ?b1 ! k) = list_id (?L ! k)"
        using nS nD nO[of k] S D by (cases "k = s"; cases "k = d") auto
      then show "map list_id (lists ?b1) ! k = map list_id ?L ! k" using k len by simp
    qed
    have aS: "?a \<in> card_id ` set (cards (?L ! s))"
      using aip(3) ain by (metis imageI nth_mem)
    have notS: "?a \<notin> card_id ` set (cards S)"
      using removeAt_distinct_map[OF unique_card_in_list[OF dist sp(1)] ain] aip(3)
      by (simp add: S)
    have inD: "?a \<in> card_id ` set (cards D)"
      using aip(3) by (simp add: D set_insertAt)
    have other: "map (\<lambda>l. x \<in> card_id ` set (cards l)) (lists ?b1)
               = map (\<lambda>l. x \<in> card_id ` set (cards l)) ?L" if x: "x \<noteq> ?a" for x
    proof (rule nth_equalityI)
      show "length (map (\<lambda>l. x \<in> card_id ` set (cards l)) (lists ?b1))
          = length (map (\<lambda>l. x \<in> card_id ` set (cards l)) ?L)" using len by simp
    next
      fix k assume "k < length (map (\<lambda>l. x \<in> card_id ` set (cards l)) (lists ?b1))"
      then have k: "k < length ?L" using len by simp
      have eS: "x \<in> card_id ` set (cards S) \<longleftrightarrow> x \<in> card_id ` set (cards (?L ! s))"
      proof -
        have "insert (cards (?L ! s) ! nat ?ai) (set (cards S)) = set (cards (?L ! s))"
          using set_removeAt_insert[OF ain] by (simp add: S)
        then have "card_id ` set (cards (?L ! s)) = insert ?a (card_id ` set (cards S))"
          using aip(3) by (metis image_insert)
        then show ?thesis using x by simp
      qed
      have eD: "x \<in> card_id ` set (cards D) \<longleftrightarrow> x \<in> card_id ` set (cards (?L ! d))"
        using x aip(3) by (simp add: D set_insertAt)
      have "x \<in> card_id ` set (cards (lists ?b1 ! k)) \<longleftrightarrow> x \<in> card_id ` set (cards (?L ! k))"
        using nS nD nO[of k] eS eD by (cases "k = s"; cases "k = d") auto
      then show "map (\<lambda>l. x \<in> card_id ` set (cards l)) (lists ?b1) ! k
               = map (\<lambda>l. x \<in> card_id ` set (cards l)) ?L ! k"
        using k len by simp
    qed
    have idset: "list_id ` set (lists ?b1) = list_id ` set ?L"
      using ids by (metis set_map)
    have st1: "board ?st1 = ?b1" "over event = Some ov" by (simp_all add: move(1))
    have "handleDragOver event ?st1 = ?st1"
    proof (cases "?a \<in> list_id ` set ?L")
      case True
      then have aca: "ac = ?a" using move(3) by (simp add: findContainer_alt)
      have c1: "findContainer (board ?st1) ?a = Some ?a"
        using True idset by (simp add: findContainer_alt)
      have "map (\<lambda>l. list_id l = ?a) (lists ?b1) = map (\<lambda>l. list_id l = ?a) ?L"
        using ids by (rule map_pred_cong)
      then have "findRef (\<lambda>l. list_id l = ?a) (lists ?b1) = Some s"
        using findRef_cong_map[of "\<lambda>l. list_id l = ?a" "lists ?b1" "\<lambda>l. list_id l = ?a" ?L] s aca
        by simp
      then have f1: "find (\<lambda>l. list_id l = ?a) (lists (board ?st1)) = Some S"
        using nS by (simp add: find_findRef)
      have i1: "findIndex (\<lambda>c. card_id c = ?a) (cards S) = - 1"
        using notS by (auto simp: findIndex_none_iff image_iff)
      show ?thesis by (rule handleDragOver_no_index[OF c1 f1 i1])
    next
      case False
      then obtain k0 where k0: "findRef (\<lambda>l. ?a \<in> card_id ` set (cards l)) ?L = Some k0"
        and ack: "ac = list_id (?L ! k0)"
        using move(3) by (auto simp: findContainer_alt)
      have k0p: "k0 < length ?L" "?a \<in> card_id ` set (cards (?L ! k0))"
        using findRef_Some[OF k0] by auto
      have other_lists: "?a \<notin> card_id ` set (cards (?L ! k))" if "k < length ?L" "k \<noteq> s" for k
        using unique_card_other_lists[OF dist sp(1) that aS] .
      have fd: "findRef (\<lambda>l. ?a \<in> card_id ` set (cards l)) (lists ?b1) = Some d"
      proof (rule findRef_first)
        show "d < length (lists ?b1)" using dp len by simp
        show "?a \<in> card_id ` set (cards (lists ?b1 ! d))" using inD nD by simp
        show "\<forall>j<d. ?a \<notin> card_id ` set (cards (lists ?b1 ! j))"
        proof (intro allI impI)
          fix j assume j: "j < d"
          show "?a \<notin> card_id ` set (cards (lists ?b1 ! j))"
          proof (cases "j = s")
            case True
            then show ?thesis using notS nS by simp
          next
            case False
            then have "lists ?b1 ! j = ?L ! j" using nO j by simp
            moreover have "j < length ?L" using j dp by simp
            ultimately show ?thesis using other_lists False by simp
          qed
        qed
      qed
      have c1: "findContainer (board ?st1) ?a = Some oc"
        using False idset fd nD dp by (simp add: findContainer_alt D)
      have "?o \<noteq> ?a" using move(3,4,5) by auto
      then have "findContainer ?b1 ?o = findContainer ?b ?o"
        using findContainer_cong[OF ids other] by simp
      then have c2: "findContainer (board ?st1) ?o = Some oc" using move(4) by simp
      show ?thesis
        by (rule handleDragOver_same_container[OF st1(2)]) (simp only: c1 c2)
    qed
    then show ?thesis using m9 by simp
  qed
qed

text \<open>
  C6. While a card drag is active, a hover whose active container and over container
  resolve to the same list changes nothing (neither the board nor the session). As a
  consequence, on a board whose card ids are distinct, handling the same hover event
  twice in succession gives the same board as handling it once: after the first
  cross-container hover has moved the card, the active item resolves to the container
  it is over.
\<close>

theorem hover_same_container_idempotent:
  "(over event = Some ov \<and> activeType (session st) = Some CardKind
      \<and> findContainer (board st) (active_id (active event))
          = findContainer (board st) (over_id ov)
      \<longrightarrow> handleDragOver event st = st \<and> board (handleDragOver event st) = board st)
   \<and> (distinct (allCardIds (board st))
      \<longrightarrow> board (handleDragOver event (handleDragOver event st))
          = board (handleDragOver event st))"
proof (intro conjI impI)
  assume h: "over event = Some ov \<and> activeType (session st) = Some CardKind
      \<and> findContainer (board st) (active_id (active event))
          = findContainer (board st) (over_id ov)"
  then have "handleDragOver event st = st"
    using handleDragOver_same_container[of event ov st] by blast
  then show "handleDragOver event st = st" "board (handleDragOver event st) = board st"
    by simp_all
next
  assume "distinct (allCardIds (board st))"
  then have "handleDragOver event (handleDragOver event st) = handleDragOver event st"
    by (rule handleDragOver_idem)
  then show "board (handleDragOver event (handleDragOver event st))
          = board (handleDragOver event st)"
    by simp
qed

text \<open>
  An instance of C6 on the initial board, during a drag of \<open>card-1\<close>: a hover over
  \<open>card-2\<close> of the same list changes nothing, and a hover over the empty \<open>list-3\<close>
  moves the card there once, however often the event is handled.
\<close>

theorem hover_same_container_idempotent_witness:
  "handleDragOver
      \<lparr>active = \<lparr>active_id = ''card-1'', active_kind = Some CardKind, translated = None\<rparr>,
       over = Some \<lparr>over_id = ''card-2'', over_rect = \<lparr>rect_top = 0, rect_height = 100\<rparr>\<rparr>\<rparr>
      \<lparr>board = DEFAULT_BOARD ''2024-01-01T00:00:00.000Z'',
       session = \<lparr>activeId = Some ''card-1'', activeType = Some CardKind,
                  lastOverId = None, recentlyMovedToNewContainer = False\<rparr>\<rparr>
     = \<lparr>board = DEFAULT_BOARD ''2024-01-01T00:00:00.000Z'',
        session = \<lparr>activeId = Some ''card-1'', activeType = Some CardKind,
                   lastOverId = None, recentlyMovedToNewContainer = False\<rparr>\<rparr>
   \<and> board (handleDragOver
      \<lparr>active = \<lparr>active_id = ''card-1'', active_kind = Some CardKind, translated = None\<rparr>,
       over = Some \<lparr>over_id = ''list-3'', over_rect = \<lparr>rect_top = 0, rect_height = 100\<rparr>\<rparr>\<rparr>
      (handleDragOver
        \<lparr>active = \<lparr>active_id = ''card-1'', active_kind = Some CardKind, translated = None\<rparr>,
         over = Some \<lparr>over_id = ''list-3'', over_rect = \<lparr>rect_top = 0, rect_height = 100\<rparr>\<rparr>\<rparr>
        \<lparr>board = DEFAULT_BOARD ''2024-01-01T00:00:00.000Z'',
         session = \<lparr>activeId = Some ''card-1'', activeType = Some CardKind,
                    lastOverId = None, recentlyMovedToNewContainer = False\<rparr>\<rparr>))
     = board (handleDragOver
        \<lparr>active = \<lparr>active_id = ''card-1'', active_kind = Some CardKind, translated = None\<rparr>,
         over = Some \<lparr>over_id = ''list-3'', over_rect = \<lparr>rect_top = 0, rect_height = 100\<rparr>\<rparr>\<rparr>
        \<lparr>board = DEFAULT_BOARD ''2024-01-01T00:00:00.000Z'',
         session = \<lparr>activeId = Some ''card-1'', activeType = Some CardKind,
                    lastOverId = None, recentlyMovedToNewContainer = False\<rparr>\<rparr>)
   \<and> map (\<lambda>l. map card_id (cards l)) (lists (board (handleDragOver
        \<lparr>active = \<lparr>active_id = ''card-1'', active_kind = Some CardKind, translated = None\<rparr>,
         over = Some \<lparr>over_id = ''list-3'', over_rect = \<lparr>rect_top = 0, rect_height = 100\<rparr>\<rparr>\<rparr>
        \<lparr>board = DEFAULT_BOARD ''2024-01-01T00:00:00.000Z'',
         session = \<lparr>activeId = Some ''card-1'', activeType = Some CardKind,
                    lastOverId = None, recentlyMovedToNewContainer = False\<rparr>\<rparr>)))
     = [[''card-2''], [''card-3''], [''card-1'']]"
proof -
  let ?st = "\<lparr>board = DEFAULT_BOARD ''2024-01-01T00:00:00.000Z'',
       session = \<lparr>activeId = Some ''card-1'', activeType = Some CardKind,
                  lastOverId = None, recentlyMovedToNewContainer = False\<rparr>\<rparr>"
  let ?ov2 = "\<lparr>over_id = ''card-2'', over_rect = \<lparr>rect_top = 0, rect_height = 100\<rparr>\<rparr>"
  let ?ov3 = "\<lparr>over_id = ''list-3'', over_rect = \<lparr>rect_top = 0, rect_height = 100\<rparr>\<rparr>"
  let ?e2 = "\<lparr>active = \<lparr>active_id = ''card-1'', active_kind = Some CardKind, translated = None\<rparr>,
       over = Some ?ov2\<rparr>"
  let ?e3 = "\<lparr>active = \<lparr>active_id = ''card-1'', active_kind = Some CardKind, translated = None\<rparr>,
       over = Some ?ov3\<rparr>"
  have same: "findContainer (board ?st) (active_id (active ?e2))
            = findContainer (board ?st) (over_id ?ov2)"
    by (simp add: findContainer_def DEFAULT_BOARD_def)
  have dist: "distinct (allCardIds (board ?st))"
    by (simp add: allCardIds_def DEFAULT_BOARD_def)
  have 1: "handleDragOver ?e2 ?st = ?st"
    using hover_same_container_idempotent[of ?e2 ?ov2 ?st] same by simp
  have 2: "board (handleDragOver ?e3 (handleDragOver ?e3 ?st)) = board (handleDragOver ?e3 ?st)"
    using hover_same_container_idempotent[of ?e3 ?ov3 ?st] dist by blast
  have 3: "map (\<lambda>l. map card_id (cards l)) (lists (board (handleDragOver ?e3 ?st)))
     = [[''card-2''], [''card-3''], [''card-1'']]"
    by (simp add: handleDragOver_def findContainer_def listIds_def DEFAULT_BOARD_def
        moveCard_def spliceArr_def actualStart_def)
  show ?thesis using 1 2 3 by (intro conjI)
qed

end
